theory Spec2Isabelle
  imports Complex_Main "HOL-Library.Char_ord" "HOL-Library.List_Lexorder" "HOL-Library.Multiset"
begin

section \<open>Python values and exceptions\<close>

text \<open>
  The transform catalog of \<^verbatim>\<open>transforms.py\<close> is a nested Python literal of strings, numbers,
  booleans, \<^verbatim>\<open>None\<close>, tuples and lists, and \<^verbatim>\<open>transform_file\<close> takes it apart dynamically
  (indexing, tuple unpacking).  The values are therefore modelled untyped, and every dynamic
  check that can raise is a branch returning an exception value.

  Numbers: Python's \<^verbatim>\<open>int\<close> and \<^verbatim>\<open>float\<close> are both embedded into \<^typ>\<open>real\<close>, and float
  arithmetic is modelled as exact real arithmetic (no rounding, no NaN, no infinities).
\<close>

datatype pyval =
    PNone
  | PBool bool
  | PNum real
  | PStr string
  | PTuple "pyval list"
  | PList "pyval list"

datatype py_error =
    IndexError
  | ValueError
  | TypeError
  | FileError
  | CollaboratorError

definition bindE :: "py_error + 'a \<Rightarrow> ('a \<Rightarrow> py_error + 'b) \<Rightarrow> py_error + 'b" where
  "bindE m k = (case m of Inl e \<Rightarrow> Inl e | Inr x \<Rightarrow> k x)"

text \<open>The items of a value used as a sequence (\<^verbatim>\<open>len\<close>, indexing, unpacking); a string is the
  sequence of its one-character strings; anything else raises \<^verbatim>\<open>TypeError\<close>.\<close>

definition py_items :: "pyval \<Rightarrow> py_error + pyval list" where
  "py_items v =
     (case v of
        PTuple xs \<Rightarrow> Inr xs
      | PList xs \<Rightarrow> Inr xs
      | PStr s \<Rightarrow> Inr (map (\<lambda>c. PStr [c]) s)
      | _ \<Rightarrow> Inl TypeError)"

text \<open>\<^verbatim>\<open>v[i]\<close> for a non-negative constant index.\<close>

definition getitem :: "pyval \<Rightarrow> nat \<Rightarrow> py_error + pyval" where
  "getitem v i =
     bindE (py_items v) (\<lambda>xs. if i < length xs then Inr (xs ! i) else Inl IndexError)"

text \<open>Unpacking \<^verbatim>\<open>a, b, c = v\<close> into exactly \<open>n\<close> targets: a sequence of another length raises
  \<^verbatim>\<open>ValueError\<close>.\<close>

definition unpack :: "nat \<Rightarrow> pyval \<Rightarrow> py_error + pyval list" where
  "unpack n v =
     bindE (py_items v) (\<lambda>xs. if length xs = n then Inr xs else Inl ValueError)"

text \<open>Python's \<^verbatim>\<open>==\<close>: booleans are the numbers 0 and 1; a tuple never equals a list.\<close>

primrec eq_key :: "pyval \<Rightarrow> pyval" where
  "eq_key PNone = PNone"
| "eq_key (PBool b) = PNum (if b then 1 else 0)"
| "eq_key (PNum r) = PNum r"
| "eq_key (PStr s) = PStr s"
| "eq_key (PTuple xs) = PTuple (map eq_key xs)"
| "eq_key (PList xs) = PList (map eq_key xs)"

definition py_eq :: "pyval \<Rightarrow> pyval \<Rightarrow> bool" where
  "py_eq a b = (eq_key a = eq_key b)"

text \<open>The operand of float arithmetic: a number or a boolean; anything else makes the
  arithmetic of \<^verbatim>\<open>random.uniform\<close> raise \<^verbatim>\<open>TypeError\<close>.\<close>

definition as_num :: "pyval \<Rightarrow> real option" where
  "as_num v = (case v of PNum r \<Rightarrow> Some r | PBool b \<Rightarrow> Some (if b then 1 else 0) | _ \<Rightarrow> None)"

text \<open>A \<^verbatim>\<open>dict\<close>: keys that compare equal are one key; a key containing a list is unhashable.\<close>

type_synonym pydict = "pyval \<rightharpoonup> pyval"

primrec hashable :: "pyval \<Rightarrow> bool" where
  "hashable PNone = True"
| "hashable (PBool b) = True"
| "hashable (PNum r) = True"
| "hashable (PStr s) = True"
| "hashable (PTuple xs) = list_all hashable xs"
| "hashable (PList xs) = False"

definition dict_set :: "pydict \<Rightarrow> pyval \<Rightarrow> pyval \<Rightarrow> py_error + pydict" where
  "dict_set d k v = (if hashable k then Inr (d(eq_key k \<mapsto> v)) else Inl TypeError)"


section \<open>The random generator\<close>

text \<open>
  The process-wide generator of the \<^verbatim>\<open>random\<close> module is passed explicitly: a state is the
  infinite sequence of values that \<^verbatim>\<open>random.random()\<close> is going to return, and the position
  reached.  \<^verbatim>\<open>random.random()\<close> returns a value in \<open>[0, 1)\<close>; this is the predicate
  \<open>unit_draws\<close>, a hypothesis wherever it matters.
\<close>

record rng =
  draws :: "nat \<Rightarrow> real"
  pos :: nat

definition unit_draws :: "rng \<Rightarrow> bool" where
  "unit_draws g \<longleftrightarrow> (\<forall>i. 0 \<le> draws g i \<and> draws g i < 1)"

definition random_random :: "rng \<Rightarrow> real \<times> rng" where
  "random_random g = (draws g (pos g), g\<lparr>pos := Suc (pos g)\<rparr>)"

text \<open>\<^verbatim>\<open>random.uniform(a, b)\<close> is \<^verbatim>\<open>a + (b - a) * self.random()\<close>.\<close>

definition uniform :: "real \<Rightarrow> real \<Rightarrow> rng \<Rightarrow> real \<times> rng" where
  "uniform a b g = (case random_random g of (u, g') \<Rightarrow> (a + (b - a) * u, g'))"

text \<open>\<^verbatim>\<open>random.choice(seq)\<close> raises \<^verbatim>\<open>IndexError\<close> on an empty sequence and otherwise returns
  the element at a random index below \<^verbatim>\<open>len(seq)\<close>; the index is taken from the next draw.\<close>

definition choice :: "'a list \<Rightarrow> rng \<Rightarrow> py_error + ('a \<times> rng)" where
  "choice xs g =
     (if xs = [] then Inl IndexError
      else case random_random g of
             (u, g') \<Rightarrow> Inr (xs ! nat \<lfloor>u * real (length xs)\<rfloor>, g'))"


section \<open>Constants, the note conversion and the catalog\<close>

definition N_TRANSFORMS :: nat where
  "N_TRANSFORMS = 32"

definition note_to_freq :: "real \<Rightarrow> real" where
  "note_to_freq note = (let a = 440 in (a / 32) * (2 powr ((note - 9) / 12)))"

definition transforms :: "pyval list" where
  "transforms = [
    PTuple [PStr ''allpass'',
      PList [PTuple [PStr ''midi'', PNum 21, PNum 108], PTuple [PStr ''width_q'', PNum 0.1, PNum 5]],
      PList []],
    PTuple [PStr ''bandpass'',
      PList [PTuple [PStr ''midi'', PNum 21, PNum 108], PTuple [PStr ''width_q'', PNum 0.1, PNum 5]],
      PList [PTuple [PStr ''constant_skirt'', PList [PBool True, PBool False]]]],
    PTuple [PStr ''bandreject'',
      PList [PTuple [PStr ''midi'', PNum 21, PNum 108], PTuple [PStr ''width_q'', PNum 0.1, PNum 5]],
      PList []],
    PTuple [PStr ''bass'',
      PList [PTuple [PStr ''gain_db'', PNum (-20), PNum 20], PTuple [PStr ''midi'', PNum 21, PNum 108],
             PTuple [PStr ''slope'', PNum 0.3, PNum 1.0]],
      PList []],
    PTuple [PStr ''chorus'',
      PList [PTuple [PStr ''gain_in'', PNum 0.0, PNum 1.0], PTuple [PStr ''gain_out'', PNum 0.0, PNum 1.0]],
      PList [PTuple [PStr ''n_voices'', PList [PNum 2, PNum 3, PNum 4]]]],
    PTuple [PStr ''compand'',
      PList [PTuple [PStr ''attack_time'', PNum 0.01, PNum 1.0],
             PTuple [PStr ''decay_time'', PNum 0.01, PNum 2.0],
             PTuple [PStr ''soft_knee_db'', PNum 0.0, PNum 12.0]],
      PList []],
    PTuple [PStr ''contrast'', PList [PTuple [PStr ''amount'', PNum 0, PNum 100]], PList []],
    PTuple [PStr ''echo'',
      PList [PTuple [PStr ''gain_in'', PNum 0, PNum 1], PTuple [PStr ''gain_out'', PNum 0, PNum 1]],
      PList []],
    PTuple [PStr ''equalizer'',
      PList [PTuple [PStr ''midi'', PNum 21, PNum 108], PTuple [PStr ''gain_db'', PNum (-20), PNum 20],
             PTuple [PStr ''width_q'', PNum 0.1, PNum 5]],
      PList []],
    PTuple [PStr ''fade'',
      PList [PTuple [PStr ''fade_in_len'', PNum 0, PNum 2], PTuple [PStr ''fade_out_len'', PNum 0, PNum 2]],
      PList [PTuple [PStr ''fade_shape'', PList [PStr ''q'', PStr ''h'', PStr ''t'', PStr ''l'', PStr ''p'']]]],
    PTuple [PStr ''flanger'',
      PList [PTuple [PStr ''delay'', PNum 0, PNum 30],
             PTuple [PStr ''depth'', PNum 0, PNum 10],
             PTuple [PStr ''regen'', PNum (-95), PNum 95],
             PTuple [PStr ''width'', PNum 0, PNum 100],
             PTuple [PStr ''speed'', PNum 0.1, PNum 10.0],
             PTuple [PStr ''phase'', PNum 0, PNum 100]],
      PList [PTuple [PStr ''shape'', PList [PStr ''triangle'', PStr ''sine'']],
             PTuple [PStr ''interp'', PList [PStr ''linear'', PStr ''quadratic'']]]],
    PTuple [PStr ''gain'',
      PList [PTuple [PStr ''gain_db'', PNum (-20), PNum 20]],
      PList [PTuple [PStr ''normalize'', PList [PBool True, PBool False]],
             PTuple [PStr ''limiter'', PList [PBool True, PBool False]],
             PTuple [PStr ''balance'', PList [PNone, PStr ''e'', PStr ''B'', PStr ''b'']]]],
    PTuple [PStr ''highpass'',
      PList [PTuple [PStr ''midi'', PNum 21, PNum 108], PTuple [PStr ''width_q'', PNum 0.1, PNum 5]],
      PList [PTuple [PStr ''n_poles'', PList [PNum 1, PNum 2]]]],
    PTuple [PStr ''lowpass'',
      PList [PTuple [PStr ''midi'', PNum 21, PNum 108], PTuple [PStr ''width_q'', PNum 0.1, PNum 5]],
      PList [PTuple [PStr ''n_poles'', PList [PNum 1, PNum 2]]]],
    PTuple [PStr ''overdrive'',
      PList [PTuple [PStr ''gain_db'', PNum (-40), PNum 40], PTuple [PStr ''colour'', PNum (-40), PNum 40]],
      PList []],
    PTuple [PStr ''phaser'',
      PList [PTuple [PStr ''gain_in'', PNum 0, PNum 1],
             PTuple [PStr ''gain_out'', PNum 0, PNum 1],
             PTuple [PStr ''delay'', PNum 0, PNum 5],
             PTuple [PStr ''decay'', PNum 0.1, PNum 0.5],
             PTuple [PStr ''speed'', PNum 0.1, PNum 2]],
      PList [PTuple [PStr ''modulation_shape'', PList [PStr ''sinusoidal'', PStr ''triangular'']]]],
    PTuple [PStr ''pitch'',
      PList [PStr ''n_semitones'', PTuple [PNum (-12), PNum 12]],
      PList [PTuple [PStr ''quick'', PList [PBool True, PBool False]]]],
    PTuple [PStr ''reverb'',
      PList [PTuple [PStr ''reverberance'', PNum 0, PNum 100],
             PTuple [PStr ''high_freq_damping'', PNum 0, PNum 100],
             PTuple [PStr ''room_scale'', PNum 0, PNum 100],
             PTuple [PStr ''stereo_depth'', PNum 0, PNum 100],
             PTuple [PStr ''pre_delay'', PNum 0, PNum 1000],
             PTuple [PStr ''wet_gain'', PNum (-20), PNum 20]],
      PList [PTuple [PStr ''wet_only'', PList [PBool True, PBool False]]]],
    PTuple [PStr ''speed'', PList [PTuple [PStr ''factor'', PNum 0.5, PNum 1.5]], PList []],
    PTuple [PStr ''stretch'',
      PList [PTuple [PStr ''factor'', PNum 0.5, PNum 1.5]],
      PList [PTuple [PStr ''window'', PList [PNum 10, PNum 20, PNum 50]]]],
    PTuple [PStr ''tempo'',
      PList [PTuple [PStr ''factor'', PNum 0.5, PNum 1.5]],
      PList [PTuple [PStr ''audio_type'', PList [PStr ''m'', PStr ''s'', PStr ''l'']],
             PTuple [PStr ''quick'', PList [PBool True, PBool False]]]],
    PTuple [PStr ''treble'',
      PList [PTuple [PStr ''gain_db'', PNum (-20), PNum 20], PTuple [PStr ''midi'', PNum 21, PNum 108],
             PTuple [PStr ''slope'', PNum 0.3, PNum 1.0]],
      PList []],
    PTuple [PStr ''tremolo'',
      PList [PTuple [PStr ''speed'', PNum 0.1, PNum 10.0], PTuple [PStr ''depth'', PNum 0, PNum 100]],
      PList []]
  ]"


section \<open>Sampling: lines 139 to 156 of \<^verbatim>\<open>transform_file\<close>\<close>

definition choose_value :: "pyval \<Rightarrow> pyval \<Rightarrow> pyval \<Rightarrow> rng \<Rightarrow> py_error + ((pyval \<times> real) \<times> rng)" where
  "choose_value name low hi g =
     (case (as_num low, as_num hi) of
        (Some a, Some b) \<Rightarrow>
          (case uniform a b g of
             (v, g') \<Rightarrow>
               if py_eq name (PStr ''midi'')
               then Inr ((PStr ''frequency'', note_to_freq v), g')
               else Inr ((name, v), g'))
      | _ \<Rightarrow> Inl TypeError)"

text \<open>The loop of lines 144 to 148 over \<^verbatim>\<open>transform_spec[1]\<close>: every continuous parameter
  other than the variable one is drawn once and stored.\<close>

fun fixed_continuous :: "pyval \<Rightarrow> pyval list \<Rightarrow> pydict \<Rightarrow> rng \<Rightarrow> py_error + (pydict \<times> rng)" where
  "fixed_continuous variable [] params g = Inr (params, g)"
| "fixed_continuous variable (e # es) params g =
     (case unpack 3 e of
        Inl err \<Rightarrow> Inl err
      | Inr t \<Rightarrow>
          (let param = t ! 0; low = t ! 1; hi = t ! 2 in
           if py_eq param variable then fixed_continuous variable es params g
           else case choose_value param low hi g of
                  Inl err \<Rightarrow> Inl err
                | Inr ((param', v), g') \<Rightarrow>
                    (case dict_set params param' (PNum v) of
                       Inl err \<Rightarrow> Inl err
                     | Inr params' \<Rightarrow> fixed_continuous variable es params' g')))"

text \<open>The loop of lines 149 and 150 over \<^verbatim>\<open>transform_spec[2]\<close>.\<close>

fun fixed_categorical :: "pyval list \<Rightarrow> pydict \<Rightarrow> rng \<Rightarrow> py_error + (pydict \<times> rng)" where
  "fixed_categorical [] params g = Inr (params, g)"
| "fixed_categorical (e # es) params g =
     (case unpack 2 e of
        Inl err \<Rightarrow> Inl err
      | Inr t \<Rightarrow>
          (let param = t ! 0; vals = t ! 1 in
           case py_items vals of
             Inl err \<Rightarrow> Inl err
           | Inr items \<Rightarrow>
               (case choice items g of
                  Inl err \<Rightarrow> Inl err
                | Inr (c, g') \<Rightarrow>
                    (case dict_set params param c of
                       Inl err \<Rightarrow> Inl err
                     | Inr params' \<Rightarrow> fixed_categorical es params' g'))))"

text \<open>The list comprehension of lines 152 to 155: \<open>n\<close> draws for the variable parameter, in
  order; \<^verbatim>\<open>variable_spec[1]\<close> and \<^verbatim>\<open>variable_spec[2]\<close> are read at every iteration.\<close>

fun sweep_draws :: "nat \<Rightarrow> pyval \<Rightarrow> pyval \<Rightarrow> rng \<Rightarrow> py_error + (real list \<times> rng)" where
  "sweep_draws 0 variable variable_spec g = Inr ([], g)"
| "sweep_draws (Suc n) variable variable_spec g =
     (case getitem variable_spec 1 of
        Inl err \<Rightarrow> Inl err
      | Inr low \<Rightarrow>
          (case getitem variable_spec 2 of
             Inl err \<Rightarrow> Inl err
           | Inr hi \<Rightarrow>
               (case choose_value variable low hi g of
                  Inl err \<Rightarrow> Inl err
                | Inr ((label, v), g') \<Rightarrow>
                    (case sweep_draws n variable variable_spec g' of
                       Inl err \<Rightarrow> Inl err
                     | Inr (vs, g'') \<Rightarrow> Inr (v # vs, g'')))))"

text \<open>What the sampling step leaves behind for the rest of \<^verbatim>\<open>transform_file\<close>.\<close>

record sampled =
  s_transform :: pyval
  s_variable_spec :: pyval
  s_variable :: pyval
  s_params :: pydict
  s_values :: "real list"

text \<open>Lines 140 to 156 for a transform specification already chosen.\<close>

definition sample_spec :: "pyval \<Rightarrow> rng \<Rightarrow> py_error + (sampled \<times> rng)" where
  "sample_spec transform_spec g =
     bindE (getitem transform_spec 0) (\<lambda>transform.
     bindE (getitem transform_spec 1) (\<lambda>continuous.
     bindE (py_items continuous) (\<lambda>centries.
     bindE (choice centries g) (\<lambda>(variable_spec, g1).
     bindE (getitem variable_spec 0) (\<lambda>variable.
     bindE (fixed_continuous variable centries Map.empty g1) (\<lambda>(params1, g2).
     bindE (getitem transform_spec 2) (\<lambda>categorical.
     bindE (py_items categorical) (\<lambda>kentries.
     bindE (fixed_categorical kentries params1 g2) (\<lambda>(params2, g3).
     bindE (sweep_draws N_TRANSFORMS variable variable_spec g3) (\<lambda>(vs, g4).
       Inr (\<lparr>s_transform = transform, s_variable_spec = variable_spec, s_variable = variable,
             s_params = params2, s_values = sort vs\<rparr>, g4)))))))))))"

text \<open>Lines 139 to 156: the specification is itself chosen at random from the catalog.\<close>

definition sample :: "pyval list \<Rightarrow> rng \<Rightarrow> py_error + (sampled \<times> rng)" where
  "sample catalog g = bindE (choice catalog g) (\<lambda>(transform_spec, g0). sample_spec transform_spec g0)"


section \<open>Output paths: lines 160 to 168\<close>

text \<open>\<^verbatim>\<open>os.path.split(f)[1]\<close>: what follows the last slash.\<close>

definition basename :: "string \<Rightarrow> string" where
  "basename f = rev (takeWhile (\<lambda>c. c \<noteq> CHR ''/'') (rev f))"

text \<open>\<^verbatim>\<open>os.path.join(a, b)\<close> of \<^verbatim>\<open>posixpath\<close> for two components.\<close>

definition path_join :: "string \<Rightarrow> string \<Rightarrow> string" where
  "path_join a b =
     (if b \<noteq> [] \<and> hd b = CHR ''/'' then b
      else if a = [] \<or> last a = CHR ''/'' then a @ b
      else a @ ''/'' @ b)"

definition digit :: "nat \<Rightarrow> char" where
  "digit d = char_of (48 + d)"

fun show_nat :: "nat \<Rightarrow> string" where
  "show_nat n = (if n < 10 then [digit n] else show_nat (n div 10) @ [digit (n mod 10)])"

declare show_nat.simps [simp del]

definition zero_pad :: "nat \<Rightarrow> string \<Rightarrow> string" where
  "zero_pad width s = replicate (width - length s) (CHR ''0'') @ s"

text \<open>Rounding to the nearest integer, ties to even: the rounding of Python's float formatting,
  which is exact on the binary value of the float.\<close>

definition round_half_even :: "real \<Rightarrow> int" where
  "round_half_even x =
     (let f = \<lfloor>x\<rfloor>; d = x - of_int f in
      if d < 1 / 2 then f
      else if 1 / 2 < d then f + 1
      else if even f then f
      else f + 1)"

text \<open>\<^verbatim>\<open>"{:010.3F}".format(v)\<close> for a finite \<open>v\<close>: three decimals, the sign first (the sign of
  \<open>v\<close>, also when the digits round to zero), then zeros up to a width of at least 10.\<close>

definition format_010_3F :: "real \<Rightarrow> string" where
  "format_010_3F v =
     (let n = nat (round_half_even (\<bar>v\<bar> * 1000));
          body = show_nat (n div 1000) @ ''.'' @ zero_pad 3 (show_nat (n mod 1000));
          sign = (if v < 0 then ''-'' else [])
      in sign @ zero_pad (10 - length sign) body)"

text \<open>A value inside an f-string: a string as it is; the \<^verbatim>\<open>str()\<close> of any other value is
  the parameter \<open>repr\<close>.\<close>

definition fstr :: "(pyval \<Rightarrow> string) \<Rightarrow> pyval \<Rightarrow> string" where
  "fstr repr v = (case v of PStr s \<Rightarrow> s | _ \<Rightarrow> repr v)"

definition outfile :: "(pyval \<Rightarrow> string) \<Rightarrow> pyval \<Rightarrow> string \<Rightarrow> pyval \<Rightarrow> real \<Rightarrow> string" where
  "outfile repr transform f variable v =
     path_join ''data/transforms''
       (fstr repr transform @ ''-'' @ basename f @ ''-'' @ fstr repr variable @ ''-''
          @ format_010_3F v @ ''.ogg'')"

text \<open>Lines 160 and 161.\<close>

definition variable_label :: "pyval \<Rightarrow> pyval" where
  "variable_label variable = (if py_eq variable (PStr ''midi'') then PStr ''frequency'' else variable)"


section \<open>The collaborators and the world\<close>

text \<open>
  The effects engine (\<^verbatim>\<open>sox\<close>), the distance (\<^verbatim>\<open>auraloss\<close>) and the rank correlation
  (\<^verbatim>\<open>scipy.stats.spearmanr\<close>) are libraries, not code of the repository: they are parameters.
  \<open>effects\<close> is the call \<^verbatim>\<open>tfm.__getattribute__(transform)(**newparams)\<close>, which may raise and
  otherwise yields what \<^verbatim>\<open>build_file\<close> will do to the samples of the input file.
  \<open>correlate\<close> is \<^verbatim>\<open>spearmanr(a, b)[0]\<close>, with \<open>None\<close> for NaN.  An audio file is the list of
  its frames, of any type \<open>'a\<close>.
\<close>

record 'a env =
  effects :: "pyval \<Rightarrow> pydict \<Rightarrow> py_error + ('a list \<Rightarrow> py_error + 'a list)"
  distance :: "'a list \<Rightarrow> 'a list \<Rightarrow> py_error + real"
  correlate :: "real list \<Rightarrow> real list \<Rightarrow> py_error + real option"
  repr :: "pyval \<Rightarrow> string"

text \<open>The world: the files on disk, the calls made to the effects engine so far (transform,
  parameters, input path, output path) and the lines printed.  A run that raises returns the
  exception alone: no property below depends on what an aborted run leaves behind.\<close>

record 'a world =
  files :: "string \<rightharpoonup> 'a list"
  calls :: "(pyval \<times> pydict \<times> string \<times> string) list"
  stdout :: "real option list"

definition read_file :: "'a world \<Rightarrow> string \<Rightarrow> py_error + 'a list" where
  "read_file w p = (case files w p of None \<Rightarrow> Inl FileError | Some b \<Rightarrow> Inr b)"


section \<open>Rendering: lines 159 to 175\<close>

fun render :: "'a env \<Rightarrow> pyval \<Rightarrow> string \<Rightarrow> pyval \<Rightarrow> pydict \<Rightarrow> real list \<Rightarrow> 'a world
    \<Rightarrow> py_error + (string list \<times> 'a world)" where
  "render E transform f variable params [] w = Inr ([], w)"
| "render E transform f variable params (v # vs) w =
     (let outf = outfile (repr E) transform f variable v in
      case dict_set params variable (PNum v) of
        Inl err \<Rightarrow> Inl err
      | Inr newparams \<Rightarrow>
          (case effects E transform newparams of
             Inl err \<Rightarrow> Inl err
           | Inr run \<Rightarrow>
               (case read_file w f of
                  Inl err \<Rightarrow> Inl err
                | Inr src \<Rightarrow>
                    (case run src of
                       Inl err \<Rightarrow> Inl err
                     | Inr out \<Rightarrow>
                         (case render E transform f variable params vs
                                 (w\<lparr>files := (files w)(outf \<mapsto> out),
                                    calls := calls w @ [(transform, newparams, f, outf)]\<rparr>) of
                            Inl err \<Rightarrow> Inl err
                          | Inr (outfiles, w') \<Rightarrow> Inr (outf # outfiles, w'))))))"


section \<open>Validation: lines 177 to 187\<close>

text \<open>Lines 181 to 184.\<close>

definition truncate_pair :: "'a list \<Rightarrow> 'a list \<Rightarrow> 'a list \<times> 'a list" where
  "truncate_pair input target =
     (if length input < length target then (input, take (length input) target)
      else (take (length target) input, target))"

text \<open>The body of the loop, lines 179 to 185, for one path \<^verbatim>\<open>outf2\<close>.\<close>

definition pair_distance :: "'a env \<Rightarrow> 'a world \<Rightarrow> string list \<Rightarrow> string \<Rightarrow> py_error + real" where
  "pair_distance E w outfiles outf2 =
     bindE (read_file w outf2) (\<lambda>input.
     bindE (case outfiles of [] \<Rightarrow> Inl IndexError | p0 # _ \<Rightarrow> read_file w p0) (\<lambda>target.
       case truncate_pair input target of (input', target') \<Rightarrow> distance E input' target'))"

fun dists_loop :: "'a env \<Rightarrow> 'a world \<Rightarrow> string list \<Rightarrow> string list \<Rightarrow> py_error + real list" where
  "dists_loop E w outfiles [] = Inr []"
| "dists_loop E w outfiles (outf2 # rest) =
     (case pair_distance E w outfiles outf2 of
        Inl err \<Rightarrow> Inl err
      | Inr d \<Rightarrow>
          (case dists_loop E w outfiles rest of
             Inl err \<Rightarrow> Inl err
           | Inr ds \<Rightarrow> Inr (d # ds)))"

text \<open>Lines 177 to 185: the loop runs over \<^verbatim>\<open>outfiles[1:]\<close>.\<close>

definition distances :: "'a env \<Rightarrow> 'a world \<Rightarrow> string list \<Rightarrow> py_error + real list" where
  "distances E w outfiles = dists_loop E w outfiles (drop 1 outfiles)"

text \<open>\<^verbatim>\<open>range(n)\<close>, as the numbers handed to the rank correlation.\<close>

definition py_range :: "nat \<Rightarrow> real list" where
  "py_range n = map real [0..<n]"

text \<open>Line 187.\<close>

definition validate :: "'a env \<Rightarrow> 'a world \<Rightarrow> string list \<Rightarrow> py_error + 'a world" where
  "validate E w outfiles =
     bindE (distances E w outfiles) (\<lambda>dists.
     bindE (correlate E dists (py_range (length dists))) (\<lambda>c.
       Inr (w\<lparr>stdout := stdout w @ [c]\<rparr>)))"


section \<open>The whole of \<^verbatim>\<open>transform_file\<close> and the driver\<close>

definition transform_file :: "'a env \<Rightarrow> pyval list \<Rightarrow> string \<Rightarrow> rng \<times> 'a world
    \<Rightarrow> py_error + (rng \<times> 'a world)" where
  "transform_file E catalog f st =
     (case st of (g, w) \<Rightarrow>
        bindE (sample catalog g) (\<lambda>(s, g').
        bindE (render E (s_transform s) f (variable_label (s_variable s)) (s_params s)
                 (s_values s) w) (\<lambda>(outfiles, w').
        bindE (validate E w' outfiles) (\<lambda>w''. Inr (g', w'')))))"

text \<open>Lines 190 and 191, over the paths that \<^verbatim>\<open>glob\<close> returned: the first exception ends the
  run.\<close>

fun driver :: "'a env \<Rightarrow> pyval list \<Rightarrow> string list \<Rightarrow> rng \<times> 'a world \<Rightarrow> py_error + (rng \<times> 'a world)" where
  "driver E catalog [] st = Inr st"
| "driver E catalog (f # fs) st =
     (case transform_file E catalog f st of
        Inl err \<Rightarrow> Inl err
      | Inr st' \<Rightarrow> driver E catalog fs st')"


section \<open>The invariant of a transform specification\<close>

definition is_str :: "pyval \<Rightarrow> bool" where
  "is_str v = (case v of PStr s \<Rightarrow> True | _ \<Rightarrow> False)"

definition is_number :: "pyval \<Rightarrow> bool" where
  "is_number v = (case v of PNum r \<Rightarrow> True | _ \<Rightarrow> False)"

definition the_number :: "pyval \<Rightarrow> real" where
  "the_number v = (case v of PNum r \<Rightarrow> r | _ \<Rightarrow> 0)"

text \<open>A continuous entry as the comment of lines 27 and 28 gives it:
  \<^verbatim>\<open>(continuous parameter, min, max)\<close>, with numeric bounds in order.\<close>

definition continuous_entry :: "pyval \<Rightarrow> bool" where
  "continuous_entry e =
     (case e of
        PTuple xs \<Rightarrow>
          length xs = 3 \<and> is_str (xs ! 0) \<and> is_number (xs ! 1) \<and> is_number (xs ! 2)
          \<and> the_number (xs ! 1) \<le> the_number (xs ! 2)
      | _ \<Rightarrow> False)"

text \<open>A categorical entry: \<^verbatim>\<open>(categorical parameter, [values])\<close>.\<close>

definition categorical_entry :: "pyval \<Rightarrow> bool" where
  "categorical_entry e =
     (case e of
        PTuple xs \<Rightarrow>
          length xs = 2 \<and> is_str (xs ! 0) \<and> (case xs ! 1 of PList vals \<Rightarrow> True | _ \<Rightarrow> False)
      | _ \<Rightarrow> False)"

text \<open>The invariant of the data model: a name, a non-empty list of continuous entries, a list of
  categorical entries.\<close>

definition spec_invariant :: "pyval \<Rightarrow> bool" where
  "spec_invariant spec =
     (case spec of
        PTuple xs \<Rightarrow>
          length xs = 3 \<and> is_str (xs ! 0)
          \<and> (case xs ! 1 of PList cs \<Rightarrow> cs \<noteq> [] \<and> list_all continuous_entry cs | _ \<Rightarrow> False)
          \<and> (case xs ! 2 of PList ks \<Rightarrow> list_all categorical_entry ks | _ \<Rightarrow> False)
      | _ \<Rightarrow> False)"

text \<open>Whether every categorical entry of a specification offers at least one value.\<close>

definition offers_value :: "pyval \<Rightarrow> bool" where
  "offers_value e = (case e of PTuple xs \<Rightarrow> (case xs ! 1 of PList vals \<Rightarrow> vals \<noteq> [] | _ \<Rightarrow> False) | _ \<Rightarrow> False)"

definition categorical_of :: "pyval \<Rightarrow> pyval list" where
  "categorical_of spec = (case spec of PTuple xs \<Rightarrow> (case xs ! 2 of PList ks \<Rightarrow> ks | _ \<Rightarrow> []) | _ \<Rightarrow> [])"

definition continuous_of :: "pyval \<Rightarrow> pyval list" where
  "continuous_of spec = (case spec of PTuple xs \<Rightarrow> (case xs ! 1 of PList cs \<Rightarrow> cs | _ \<Rightarrow> []) | _ \<Rightarrow> [])"


text \<open>The bounds of a continuous entry on the scale of the values it yields: the entry's own
  bounds, after the note conversion when the entry is named \<^verbatim>\<open>midi\<close>.\<close>

definition axis_low :: "pyval \<Rightarrow> real" where
  "axis_low e =
     (case e of
        PTuple xs \<Rightarrow>
          if py_eq (xs ! 0) (PStr ''midi'') then note_to_freq (the_number (xs ! 1))
          else the_number (xs ! 1)
      | _ \<Rightarrow> 0)"

definition axis_high :: "pyval \<Rightarrow> real" where
  "axis_high e =
     (case e of
        PTuple xs \<Rightarrow>
          if py_eq (xs ! 0) (PStr ''midi'') then note_to_freq (the_number (xs ! 2))
          else the_number (xs ! 2)
      | _ \<Rightarrow> 0)"


text \<open>Collaborators that never fail: the effects engine accepts every call and renders every
  input, every distance and every correlation is computed.\<close>

definition obliging :: "'a env \<Rightarrow> bool" where
  "obliging E \<longleftrightarrow>
     (\<forall>t p. \<exists>run. effects E t p = Inr run \<and> (\<forall>b. \<exists>out. run b = Inr out))
     \<and> (\<forall>a b. \<exists>d. distance E a b = Inr d)
     \<and> (\<forall>xs ys. \<exists>c. correlate E xs ys = Inr c)"


text \<open>Modelled from the spec: the rank correlation is \<^verbatim>\<open>scipy.stats.spearmanr\<close>, a library
  that is not part of the repository.  Its contract for degenerate input is taken from the
  spec (sections 6 and 7): for two sequences of equal length of which the first has fewer than
  2 elements or is constant, the coefficient is undefined (NaN) and nothing is raised.\<close>

definition nan_on_degenerate :: "(real list \<Rightarrow> real list \<Rightarrow> py_error + real option) \<Rightarrow> bool" where
  "nan_on_degenerate corr \<longleftrightarrow>
     (\<forall>xs ys. length xs = length ys \<and> (length xs < 2 \<or> list_all (\<lambda>x. x = hd xs) xs)
        \<longrightarrow> corr xs ys = Inr None)"






section \<open>Digit strings\<close>

text \<open>The decimal representation with exactly \<open>k\<close> digits, and the number that a string of
  digits denotes: they serve to compare and to tell apart the strings that \<open>show_nat\<close> and
  \<open>zero_pad\<close> produce.\<close>

primrec digits_fixed :: "nat \<Rightarrow> nat \<Rightarrow> string" where
  "digits_fixed 0 n = []"
| "digits_fixed (Suc k) n = digits_fixed k (n div 10) @ [digit (n mod 10)]"

definition digit_value :: "char \<Rightarrow> nat" where
  "digit_value c = of_char c - 48"

definition string_value :: "string \<Rightarrow> nat" where
  "string_value s = foldl (\<lambda>a c. 10 * a + digit_value c) 0 s"


section \<open>Concrete collaborators, worlds and generators for the examples\<close>

definition demo_env :: "nat env" where
  "demo_env = \<lparr>effects = (\<lambda>t p. Inr (\<lambda>b. Inr b)),
               distance = (\<lambda>a b. Inr (real (length a + length b))),
               correlate = (\<lambda>xs ys. if length xs < 2 \<or> list_all (\<lambda>x. x = hd xs) xs then Inr None
                                      else Inr (Some 0)),
               repr = (\<lambda>v. [])\<rparr>"

definition demo_world :: "nat world" where
  "demo_world = \<lparr>files = [''anchor.ogg'' \<mapsto> replicate 100 0, ''other.ogg'' \<mapsto> replicate 80 1,
                          ''data/FSD50K.eval_audio/1.wav'' \<mapsto> [3, 1, 4, 1, 5]],
                 calls = [], stdout = []\<rparr>"

definition const_rng :: "real \<Rightarrow> rng" where
  "const_rng u = \<lparr>draws = (\<lambda>i. u), pos = 0\<rparr>"


section \<open>Truncation before the distance\<close>

lemma truncate_pair_take:
  "truncate_pair input target =
     (take (min (length input) (length target)) input,
      take (min (length input) (length target)) target)"
  by (simp add: truncate_pair_def min_def)

text \<open>
  Claim C6.  Before the distance is computed, the buffer read from \<^verbatim>\<open>outf2\<close> and the anchor
  buffer read from \<^verbatim>\<open>outfiles[0]\<close> are both cut to the first \<open>min\<close> of the two lengths many
  frames: nothing is padded and no frame is changed.  For lengths 100 and 80 these are the
  first 80 frames of each.
\<close>

theorem pair_distance_truncates:
  assumes "files w outf2 = Some input" and "files w p0 = Some target"
  shows "pair_distance E w (p0 # rest) outf2 =
           distance E (take (min (length input) (length target)) input)
                      (take (min (length input) (length target)) target)"
  using assms by (simp add: pair_distance_def read_file_def bindE_def truncate_pair_take)

theorem pair_distance_truncates_witness:
  "files demo_world ''other.ogg'' = Some (replicate 80 1)
   \<and> files demo_world ''anchor.ogg'' = Some (replicate 100 0)
   \<and> pair_distance demo_env demo_world [''anchor.ogg'', ''other.ogg''] ''other.ogg''
       = distance demo_env (replicate 80 1) (replicate 80 0)"
proof -
  have a: "files demo_world ''other.ogg'' = Some (replicate 80 1)"
    by (simp add: demo_world_def)
  have b: "files demo_world ''anchor.ogg'' = Some (replicate 100 0)"
    by (simp add: demo_world_def)
  show ?thesis
    using pair_distance_truncates [OF a b, of demo_env "[''other.ogg'']"] a b by simp
qed


section \<open>The catalog against the invariant\<close>

text \<open>
  Claim C2.  Not every entry of the catalog satisfies the invariant: the entry at index 16,
  \<^verbatim>\<open>"pitch"\<close>, has the continuous list \<^verbatim>\<open>["n_semitones", (-12, 12)]\<close>, whose two elements are
  a string and a pair instead of one triple.  It is the only entry that fails.
\<close>

theorem catalog_invariant_fails_at_pitch:
  "filter (\<lambda>s. \<not> spec_invariant s) transforms = [transforms ! 16]
   \<and> getitem (transforms ! 16) 0 = Inr (PStr ''pitch'')
   \<and> getitem (transforms ! 16) 1 = Inr (PList [PStr ''n_semitones'', PTuple [PNum (-12), PNum 12]])"
  by (simp add: transforms_def spec_invariant_def continuous_entry_def categorical_entry_def
      is_str_def is_number_def the_number_def getitem_def py_items_def bindE_def)


section \<open>The sampling step\<close>

lemma bindE_Inr [simp]: "bindE (Inr x) k = k x"
  by (simp add: bindE_def)

lemma bindE_Inl [simp]: "bindE (Inl e) k = Inl e"
  by (simp add: bindE_def)

lemma bindE_eq_Inr: "bindE m k = Inr y \<longleftrightarrow> (\<exists>x. m = Inr x \<and> k x = Inr y)"
  by (cases m) simp_all

lemma unit_draws_pos [simp]: "unit_draws (g\<lparr>pos := n\<rparr>) = unit_draws g"
  by (simp add: unit_draws_def)

lemma choice_index:
  assumes "unit_draws g" and "xs \<noteq> []"
  shows "\<exists>i<length xs. choice xs g = Inr (xs ! i, g\<lparr>pos := Suc (pos g)\<rparr>)"
proof -
  let ?u = "draws g (pos g)"
  let ?n = "length xs"
  have u: "0 \<le> ?u" "?u < 1" using assms(1) by (simp_all add: unit_draws_def)
  have n: "0 < real ?n" using assms(2) by simp
  have "?u * real ?n < real ?n" using u n by simp
  then have "\<lfloor>?u * real ?n\<rfloor> < int ?n" by (simp add: floor_less_iff)
  moreover have "0 \<le> \<lfloor>?u * real ?n\<rfloor>" using u n by simp
  ultimately have "nat \<lfloor>?u * real ?n\<rfloor> < ?n" by linarith
  then show ?thesis using assms(2) by (auto simp: choice_def random_random_def)
qed

lemma uniform_bounds:
  assumes "unit_draws g" and "a \<le> b"
  shows "\<exists>v. uniform a b g = (v, g\<lparr>pos := Suc (pos g)\<rparr>) \<and> a \<le> v \<and> v \<le> b"
proof -
  let ?u = "draws g (pos g)"
  have u: "0 \<le> ?u" "?u < 1" using assms(1) by (simp_all add: unit_draws_def)
  have d: "0 \<le> b - a" using assms(2) by simp
  have "0 \<le> (b - a) * ?u" using u d by simp
  moreover have "(b - a) * ?u \<le> (b - a) * 1" using u d by (intro mult_left_mono) simp_all
  ultimately show ?thesis by (simp add: uniform_def random_random_def)
qed

lemma py_eq_PStr [simp]: "py_eq (PStr a) (PStr b) \<longleftrightarrow> a = b"
  by (simp add: py_eq_def)

lemma note_to_freq_le: "a \<le> b \<Longrightarrow> note_to_freq a \<le> note_to_freq b"
  by (simp add: note_to_freq_def)

lemma choose_value_num:
  assumes "unit_draws g" and "lo \<le> hi"
  shows "\<exists>v. choose_value (PStr n) (PNum lo) (PNum hi) g
               = Inr ((if n = ''midi'' then PStr ''frequency'' else PStr n, v), g\<lparr>pos := Suc (pos g)\<rparr>)
             \<and> axis_low (PTuple [PStr n, PNum lo, PNum hi]) \<le> v
             \<and> v \<le> axis_high (PTuple [PStr n, PNum lo, PNum hi])"
proof -
  obtain v where v: "uniform lo hi g = (v, g\<lparr>pos := Suc (pos g)\<rparr>)" "lo \<le> v" "v \<le> hi"
    using uniform_bounds [OF assms] by blast
  show ?thesis
    using v by (simp add: choose_value_def as_num_def axis_low_def axis_high_def the_number_def
        note_to_freq_le)
qed

lemma continuous_entryE:
  assumes "continuous_entry e"
  obtains n lo hi where "e = PTuple [PStr n, PNum lo, PNum hi]" and "lo \<le> hi"
proof -
  from assms obtain xs where e: "e = PTuple xs" and l: "length xs = 3"
    and s: "is_str (xs ! 0)" and n1: "is_number (xs ! 1)" and n2: "is_number (xs ! 2)"
    and le: "the_number (xs ! 1) \<le> the_number (xs ! 2)"
    by (auto simp: continuous_entry_def split: pyval.splits)
  from l obtain a b c where xs: "xs = [a, b, c]"
    by (auto simp: length_Suc_conv numeral_3_eq_3)
  from s n1 n2 xs obtain n lo hi where "a = PStr n" "b = PNum lo" "c = PNum hi"
    by (auto simp: is_str_def is_number_def split: pyval.splits)
  with e xs le show thesis by (intro that [of n lo hi]) (simp_all add: the_number_def)
qed

lemma sweep_draws_length:
  "sweep_draws n var vspec g = Inr (vs, g') \<Longrightarrow> length vs = n"
  by (induction n arbitrary: g vs) (auto split: sum.splits prod.splits)

lemma sweep_draws_entry:
  assumes "unit_draws g" and "lo \<le> hi"
  shows "\<exists>vs g'. sweep_draws n (PStr name) (PTuple [PStr name, PNum lo, PNum hi]) g = Inr (vs, g')
           \<and> unit_draws g'
           \<and> list_all (\<lambda>v. axis_low (PTuple [PStr name, PNum lo, PNum hi]) \<le> v
                           \<and> v \<le> axis_high (PTuple [PStr name, PNum lo, PNum hi])) vs"
  using assms(1)
proof (induction n arbitrary: g)
  case 0
  then show ?case by simp
next
  case (Suc n)
  let ?e = "PTuple [PStr name, PNum lo, PNum hi]"
  obtain v where v: "choose_value (PStr name) (PNum lo) (PNum hi) g
      = Inr ((if name = ''midi'' then PStr ''frequency'' else PStr name, v), g\<lparr>pos := Suc (pos g)\<rparr>)"
      "axis_low ?e \<le> v" "v \<le> axis_high ?e"
    using choose_value_num [OF Suc.prems assms(2)] by blast
  have "unit_draws (g\<lparr>pos := Suc (pos g)\<rparr>)" using Suc.prems by simp
  from Suc.IH [OF this] obtain vs g' where
    r: "sweep_draws n (PStr name) ?e (g\<lparr>pos := Suc (pos g)\<rparr>) = Inr (vs, g')" "unit_draws g'"
       "list_all (\<lambda>v. axis_low ?e \<le> v \<and> v \<le> axis_high ?e) vs"
    by blast
  show ?case using v r by (simp add: getitem_def py_items_def)
qed

lemma fixed_continuous_ok:
  assumes "unit_draws g" and "list_all continuous_entry es"
  shows "\<exists>params' g'. fixed_continuous var es params g = Inr (params', g') \<and> unit_draws g'"
  using assms
proof (induction es arbitrary: params g)
  case Nil
  then show ?case by simp
next
  case (Cons e es)
  from Cons.prems(2) have ce: "continuous_entry e" and rest: "list_all continuous_entry es"
    by simp_all
  from ce obtain n lo hi where e: "e = PTuple [PStr n, PNum lo, PNum hi]" and le: "lo \<le> hi"
    by (rule continuous_entryE)
  have u: "unpack 3 e = Inr [PStr n, PNum lo, PNum hi]"
    by (simp add: e unpack_def py_items_def)
  show ?case
  proof (cases "py_eq (PStr n) var")
    case True
    then show ?thesis using u Cons.IH [OF Cons.prems(1) rest] by simp
  next
    case False
    obtain v where v: "choose_value (PStr n) (PNum lo) (PNum hi) g
      = Inr ((if n = ''midi'' then PStr ''frequency'' else PStr n, v), g\<lparr>pos := Suc (pos g)\<rparr>)"
      using choose_value_num [OF Cons.prems(1) le] by blast
    have g1: "unit_draws (g\<lparr>pos := Suc (pos g)\<rparr>)" using Cons.prems(1) by simp
    show ?thesis
      using False u v Cons.IH [OF g1 rest] by (cases "n = ''midi''") (simp_all add: dict_set_def)
  qed
qed


lemma categorical_entryE:
  assumes "categorical_entry e" and "offers_value e"
  obtains n vals where "e = PTuple [PStr n, PList vals]" and "vals \<noteq> []"
proof -
  from assms(1) obtain xs where e: "e = PTuple xs" and l: "length xs = 2"
    and s: "is_str (xs ! 0)"
    by (auto simp: categorical_entry_def split: pyval.splits)
  from l obtain a b where xs: "xs = [a, b]"
    by (auto simp: length_Suc_conv numeral_2_eq_2)
  from s xs obtain n where a: "a = PStr n"
    by (auto simp: is_str_def split: pyval.splits)
  from assms(2) e xs obtain vals where "b = PList vals" "vals \<noteq> []"
    by (auto simp: offers_value_def split: pyval.splits)
  with e xs a show thesis by (intro that [of n vals]) simp_all
qed

lemma fixed_categorical_ok:
  assumes "unit_draws g" and "list_all categorical_entry es" and "list_all offers_value es"
  shows "\<exists>params' g'. fixed_categorical es params g = Inr (params', g') \<and> unit_draws g'"
  using assms
proof (induction es arbitrary: params g)
  case Nil
  then show ?case by simp
next
  case (Cons e es)
  from Cons.prems have ce: "categorical_entry e" "offers_value e"
    and rest: "list_all categorical_entry es" "list_all offers_value es"
    by simp_all
  from ce obtain n vals where e: "e = PTuple [PStr n, PList vals]" and ne: "vals \<noteq> []"
    by (rule categorical_entryE)
  have u: "unpack 2 e = Inr [PStr n, PList vals]"
    by (simp add: e unpack_def py_items_def)
  obtain i where c: "choice vals g = Inr (vals ! i, g\<lparr>pos := Suc (pos g)\<rparr>)"
    using choice_index [OF Cons.prems(1) ne] by blast
  have g1: "unit_draws (g\<lparr>pos := Suc (pos g)\<rparr>)" using Cons.prems(1) by simp
  show ?case
    using u c Cons.IH [OF g1 rest] by (simp add: dict_set_def py_items_def)
qed

lemma sample_spec_values:
  assumes "sample_spec spec g = Inr (s, g')"
  shows "length (s_values s) = N_TRANSFORMS" and "sorted (s_values s)"
  using assms
  by (auto simp: sample_spec_def bindE_eq_Inr dest: sweep_draws_length)

lemma sample_values:
  assumes "sample catalog g = Inr (s, g')"
  shows "length (s_values s) = N_TRANSFORMS" and "sorted (s_values s)"
  using assms
  by (auto simp: sample_def bindE_eq_Inr dest: sample_spec_values)


lemma spec_invariantE:
  assumes "spec_invariant spec"
  obtains name cs ks where "spec = PTuple [PStr name, PList cs, PList ks]"
    and "cs \<noteq> []" and "list_all continuous_entry cs" and "list_all categorical_entry ks"
proof -
  from assms obtain xs where e: "spec = PTuple xs" and l: "length xs = 3"
    and s: "is_str (xs ! 0)"
    and c: "(case xs ! 1 of PList cs \<Rightarrow> cs \<noteq> [] \<and> list_all continuous_entry cs | _ \<Rightarrow> False)"
    and k: "(case xs ! 2 of PList ks \<Rightarrow> list_all categorical_entry ks | _ \<Rightarrow> False)"
    by (auto simp: spec_invariant_def split: pyval.splits)
  from l obtain a b d where xs: "xs = [a, b, d]"
    by (auto simp: length_Suc_conv numeral_3_eq_3)
  from s xs obtain name where a: "a = PStr name"
    by (auto simp: is_str_def split: pyval.splits)
  from c xs obtain cs where b: "b = PList cs" "cs \<noteq> []" "list_all continuous_entry cs"
    by (auto split: pyval.splits)
  from k xs obtain ks where d: "d = PList ks" "list_all categorical_entry ks"
    by (auto split: pyval.splits)
  show thesis using e xs a b d by (intro that [of name cs ks]) simp_all
qed

lemma sample_spec_ok:
  assumes g: "unit_draws g" and inv: "spec_invariant spec"
    and off: "list_all offers_value (categorical_of spec)"
  shows "\<exists>s g'. sample_spec spec g = Inr (s, g') \<and> unit_draws g'
           \<and> s_variable_spec s \<in> set (continuous_of spec)
           \<and> getitem (s_variable_spec s) 0 = Inr (s_variable s) \<and> is_str (s_variable s)
           \<and> length (s_values s) = N_TRANSFORMS \<and> sorted (s_values s)
           \<and> list_all (\<lambda>v. axis_low (s_variable_spec s) \<le> v \<and> v \<le> axis_high (s_variable_spec s))
                (s_values s)"
proof -
  from inv obtain name cs ks where spec: "spec = PTuple [PStr name, PList cs, PList ks]"
    and cs: "cs \<noteq> []" "list_all continuous_entry cs" and ks: "list_all categorical_entry ks"
    by (rule spec_invariantE)
  have off': "list_all offers_value ks" using off by (simp add: spec categorical_of_def)
  obtain i where i: "i < length cs" and c: "choice cs g = Inr (cs ! i, g\<lparr>pos := Suc (pos g)\<rparr>)"
    using choice_index [OF g cs(1)] by blast
  have "continuous_entry (cs ! i)" using cs(2) i by (simp add: list_all_length)
  then obtain n lo hi where e: "cs ! i = PTuple [PStr n, PNum lo, PNum hi]" and le: "lo \<le> hi"
    by (rule continuous_entryE)
  have g1: "unit_draws (g\<lparr>pos := Suc (pos g)\<rparr>)" using g by simp
  obtain p1 g2 where f1: "fixed_continuous (PStr n) cs Map.empty (g\<lparr>pos := Suc (pos g)\<rparr>) = Inr (p1, g2)"
    and g2: "unit_draws g2"
    using fixed_continuous_ok [OF g1 cs(2)] by blast
  obtain p2 g3 where f2: "fixed_categorical ks p1 g2 = Inr (p2, g3)" and g3: "unit_draws g3"
    using fixed_categorical_ok [OF g2 ks off'] by blast
  obtain vs g4 where sw: "sweep_draws N_TRANSFORMS (PStr n) (PTuple [PStr n, PNum lo, PNum hi]) g3 = Inr (vs, g4)"
    and g4: "unit_draws g4"
    and b: "list_all (\<lambda>v. axis_low (PTuple [PStr n, PNum lo, PNum hi]) \<le> v
                           \<and> v \<le> axis_high (PTuple [PStr n, PNum lo, PNum hi])) vs"
    using sweep_draws_entry [OF g3 le] by blast
  have len: "length vs = N_TRANSFORMS" using sw by (rule sweep_draws_length)
  have mem: "cs ! i \<in> set cs" using i by simp
  have b': "list_all (\<lambda>v. axis_low (PTuple [PStr n, PNum lo, PNum hi]) \<le> v
                           \<and> v \<le> axis_high (PTuple [PStr n, PNum lo, PNum hi])) (sort vs)"
    using b by (simp add: list_all_iff)
  show ?thesis
    using c e f1 f2 sw g4 len mem b'
    by (simp add: sample_spec_def spec getitem_def py_items_def continuous_of_def is_str_def)
qed

lemma pitch_raises:
  assumes "unit_draws g"
  shows "sample_spec (transforms ! 16) g = Inl ValueError"
proof -
  let ?cs = "[PStr ''n_semitones'', PTuple [PNum (-12), PNum 12]]"
  obtain i where i: "i < length ?cs" and c: "choice ?cs g = Inr (?cs ! i, g\<lparr>pos := Suc (pos g)\<rparr>)"
    using choice_index [OF assms, of ?cs] by blast
  from i have "i = 0 \<or> i = 1" by auto
  then show ?thesis
    using c by (auto simp: transforms_def sample_spec_def getitem_def py_items_def unpack_def)
qed

lemma catalog_rest_good:
  "list_all (\<lambda>s. spec_invariant s \<and> list_all offers_value (categorical_of s))
     (take 16 transforms @ drop 17 transforms)"
  by (simp add: transforms_def spec_invariant_def continuous_entry_def categorical_entry_def
      is_str_def is_number_def the_number_def offers_value_def categorical_of_def)

lemma catalog_sweeps_except_pitch:
  assumes "unit_draws g" and "i < length transforms" and "i \<noteq> 16"
  shows "\<exists>s g'. sample_spec (transforms ! i) g = Inr (s, g')
           \<and> s_variable_spec s \<in> set (continuous_of (transforms ! i))
           \<and> length (s_values s) = N_TRANSFORMS \<and> sorted (s_values s)
           \<and> list_all (\<lambda>v. axis_low (s_variable_spec s) \<le> v \<and> v \<le> axis_high (s_variable_spec s))
                (s_values s)"
proof -
  have l: "length transforms = 23" by (simp add: transforms_def)
  have "transforms ! i \<in> set (take 16 transforms @ drop 17 transforms)"
  proof (cases "i < 16")
    case True
    then have "transforms ! i = take 16 transforms ! i" by simp
    moreover have "i < length (take 16 transforms)" using True l by simp
    ultimately have "transforms ! i \<in> set (take 16 transforms)" by (metis nth_mem)
    then show ?thesis by simp
  next
    case False
    then have i: "17 \<le> i" using assms(3) by simp
    then have "transforms ! i = drop 17 transforms ! (i - 17)" using assms(2) by simp
    moreover have "i - 17 < length (drop 17 transforms)" using i assms(2) by simp
    ultimately have "transforms ! i \<in> set (drop 17 transforms)" by (metis nth_mem)
    then show ?thesis by simp
  qed
  then have "spec_invariant (transforms ! i) \<and> list_all offers_value (categorical_of (transforms ! i))"
    using catalog_rest_good unfolding list_all_iff by blast
  then show ?thesis
    using sample_spec_ok [OF assms(1), of "transforms ! i"] by blast
qed

text \<open>
  Claim C1.  The claim fails on the catalog entry \<^verbatim>\<open>"pitch"\<close> (index 16): whatever the
  generator returns, the sampling step for that entry produces no sweep but raises
  \<^verbatim>\<open>ValueError\<close>, when line 144 unpacks the string \<^verbatim>\<open>"n_semitones"\<close> into three names.
  (For every other entry the claim holds: \<open>catalog_sweeps_except_pitch\<close>.)
\<close>

theorem sample_raises_at_pitch:
  assumes "unit_draws g"
  shows "sample_spec (transforms ! 16) g = Inl ValueError"
  using assms by (rule pitch_raises)

theorem sample_raises_at_pitch_witness:
  "unit_draws (const_rng (7 / 10))
   \<and> sample_spec (transforms ! 16) (const_rng (7 / 10)) = Inl ValueError
   \<and> sample transforms (const_rng (7 / 10)) = Inl ValueError"
proof -
  have u: "unit_draws (const_rng (7 / 10))"
    by (simp add: const_rng_def unit_draws_def)
  have c: "choice transforms (const_rng (7 / 10))
             = Inr (transforms ! 16, (const_rng (7 / 10))\<lparr>pos := 1\<rparr>)"
    by (simp add: choice_def random_random_def const_rng_def transforms_def)
  have u1: "unit_draws ((const_rng (7 / 10))\<lparr>pos := 1\<rparr>)"
    using u by simp
  show ?thesis
    using sample_raises_at_pitch [OF u] sample_raises_at_pitch [OF u1] u c
    by (simp add: sample_def)
qed









section \<open>The note conversion\<close>









section \<open>Rendering and validation\<close>

lemma render_result:
  assumes "render E t f var ps vs w = Inr (outfiles, w')"
  shows "outfiles = map (outfile (repr E) t f var) vs
         \<and> calls w' = calls w @ map (\<lambda>v. (t, ps(eq_key var \<mapsto> PNum v), f, outfile (repr E) t f var v)) vs
         \<and> stdout w' = stdout w"
  using assms
proof (induction vs arbitrary: w outfiles)
  case Nil
  then show ?case by simp
next
  case (Cons v vs)
  from Cons.prems obtain newparams run src out rest where
    d: "dict_set ps var (PNum v) = Inr newparams"
    and r: "render E t f var ps vs
              (w\<lparr>files := (files w)(outfile (repr E) t f var v \<mapsto> out),
                 calls := calls w @ [(t, newparams, f, outfile (repr E) t f var v)]\<rparr>) = Inr (rest, w')"
    and o: "outfiles = outfile (repr E) t f var v # rest"
    by (auto simp: Let_def split: sum.splits prod.splits)
  from d have np: "newparams = ps(eq_key var \<mapsto> PNum v)"
    by (auto simp: dict_set_def split: if_splits)
  from Cons.IH [OF r] o np show ?case by (simp add: fun_upd_def)
qed

lemma dists_loop_iff:
  "dists_loop E w outfiles ps = Inr ds \<longleftrightarrow> map (pair_distance E w outfiles) ps = map Inr ds"
proof (induction ps arbitrary: ds)
  case Nil
  then show ?case by auto
next
  case (Cons p ps)
  show ?case
  proof (cases ds)
    case Nil
    then show ?thesis by (auto split: sum.splits)
  next
    case (Cons d ds')
    then show ?thesis using Cons.IH [of ds'] by (auto split: sum.splits)
  qed
qed

lemma distances_length:
  assumes "distances E w outfiles = Inr ds"
  shows "length ds = length outfiles - 1"
proof -
  from assms have "map (pair_distance E w outfiles) (drop 1 outfiles) = map Inr ds"
    by (simp add: distances_def dists_loop_iff)
  then have "length (map (pair_distance E w outfiles) (drop 1 outfiles)) = length (map Inr ds :: (py_error + real) list)"
    by simp
  then show ?thesis by simp
qed


lemma render_ok:
  assumes "obliging E" and "hashable var" and "files w f \<noteq> None"
  shows "\<exists>outfiles w'. render E t f var ps vs w = Inr (outfiles, w')
           \<and> list_all (\<lambda>p. files w' p \<noteq> None) outfiles"
proof -
  have "\<exists>outfiles w'. render E t f var ps vs w = Inr (outfiles, w')
           \<and> (\<forall>p. files w p \<noteq> None \<longrightarrow> files w' p \<noteq> None)
           \<and> (\<forall>p\<in>set outfiles. files w' p \<noteq> None)"
    using assms(3)
  proof (induction vs arbitrary: w)
    case Nil
    then show ?case by simp
  next
    case (Cons v vs)
    let ?outf = "outfile (repr E) t f var v"
    let ?np = "ps(eq_key var \<mapsto> PNum v)"
    obtain run where run: "effects E t ?np = Inr run" and tot: "\<forall>b. \<exists>out. run b = Inr out"
      using assms(1) unfolding obliging_def by blast
    obtain src where src: "files w f = Some src" using Cons.prems by auto
    obtain out where out: "run src = Inr out" using tot by blast
    let ?w1 = "w\<lparr>files := (files w)(?outf \<mapsto> out), calls := calls w @ [(t, ?np, f, ?outf)]\<rparr>"
    have "files ?w1 f \<noteq> None" using src by simp
    from Cons.IH [OF this] obtain outfiles w' where
      r: "render E t f var ps vs ?w1 = Inr (outfiles, w')"
      and keep: "\<forall>p. files ?w1 p \<noteq> None \<longrightarrow> files w' p \<noteq> None"
      and outs: "\<forall>p\<in>set outfiles. files w' p \<noteq> None"
      by blast
    have k1: "files w' ?outf \<noteq> None" using keep by simp
    have k2: "\<forall>p. files w p \<noteq> None \<longrightarrow> files w' p \<noteq> None" using keep by simp
    show ?case
      using assms(2) run src out r k1 k2 outs
      by (simp add: dict_set_def read_file_def Let_def)
  qed
  then show ?thesis by (auto simp: list_all_iff)
qed

lemma pair_distance_ok:
  assumes "obliging E" and "files w p \<noteq> None" and "files w p0 \<noteq> None"
  shows "\<exists>d. pair_distance E w (p0 # rest) p = Inr d"
proof -
  obtain a b where ab: "files w p = Some a" "files w p0 = Some b" using assms(2,3) by auto
  obtain a' b' where t: "truncate_pair a b = (a', b')" by (cases "truncate_pair a b")
  obtain d where "distance E a' b' = Inr d" using assms(1) unfolding obliging_def by blast
  then show ?thesis using ab t by (simp add: pair_distance_def read_file_def)
qed

lemma dists_loop_ok:
  assumes "obliging E" and "list_all (\<lambda>p. files w p \<noteq> None) ps" and "files w p0 \<noteq> None"
  shows "\<exists>ds. dists_loop E w (p0 # rest) ps = Inr ds"
  using assms(2)
proof (induction ps)
  case Nil
  then show ?case by simp
next
  case (Cons p ps)
  then obtain ds where ds: "dists_loop E w (p0 # rest) ps = Inr ds" by auto
  obtain d where "pair_distance E w (p0 # rest) p = Inr d"
    using pair_distance_ok [OF assms(1) _ assms(3)] Cons.prems by auto
  then show ?case using ds by simp
qed

lemma validate_ok:
  assumes "obliging E" and "list_all (\<lambda>p. files w p \<noteq> None) outfiles"
  shows "\<exists>w'. validate E w outfiles = Inr w'"
proof (cases outfiles)
  case Nil
  obtain c where "correlate E [] (py_range 0) = Inr c"
    using assms(1) unfolding obliging_def by blast
  then show ?thesis using Nil by (simp add: validate_def distances_def)
next
  case (Cons p0 rest)
  have "\<exists>ds. dists_loop E w (p0 # rest) rest = Inr ds"
    using assms Cons by (intro dists_loop_ok) simp_all
  then obtain ds where ds: "distances E w outfiles = Inr ds"
    using Cons by (auto simp: distances_def)
  obtain c where "correlate E ds (py_range (length ds)) = Inr c"
    using assms(1) unfolding obliging_def by blast
  then show ?thesis using ds by (simp add: validate_def)
qed


section \<open>Whole runs\<close>

lemma transform_file_unfold:
  "transform_file E catalog f (g, w) = Inr (g', w') \<longleftrightarrow>
     (\<exists>s outfiles w1 dists c.
        sample catalog g = Inr (s, g')
        \<and> render E (s_transform s) f (variable_label (s_variable s)) (s_params s) (s_values s) w
            = Inr (outfiles, w1)
        \<and> distances E w1 outfiles = Inr dists
        \<and> correlate E dists (py_range (length dists)) = Inr c
        \<and> w' = w1\<lparr>stdout := stdout w1 @ [c]\<rparr>)"
  by (auto simp: transform_file_def validate_def bindE_eq_Inr)

lemma choice_state:
  "choice xs g = Inr (x, g0) \<Longrightarrow> g0 = g\<lparr>pos := Suc (pos g)\<rparr>"
  by (auto simp: choice_def random_random_def split: if_splits)

lemma hashable_label: "is_str v \<Longrightarrow> hashable (variable_label v)"
  by (auto simp: is_str_def variable_label_def split: pyval.splits)

lemma transform_file_ok:
  assumes g: "unit_draws g" and c: "choice catalog g = Inr (spec, g0)"
    and inv: "spec_invariant spec" and off: "list_all offers_value (categorical_of spec)"
    and E: "obliging E" and f: "files w f \<noteq> None"
  shows "\<exists>g' w'. transform_file E catalog f (g, w) = Inr (g', w')"
proof -
  have "unit_draws g0" using g choice_state [OF c] by simp
  from sample_spec_ok [OF this inv off] obtain s g' where
    s: "sample_spec spec g0 = Inr (s, g')" and str: "is_str (s_variable s)"
    by blast
  have sm: "sample catalog g = Inr (s, g')" using c s by (simp add: sample_def)
  obtain outfiles w1 where
    r: "render E (s_transform s) f (variable_label (s_variable s)) (s_params s) (s_values s) w
          = Inr (outfiles, w1)"
    and ex: "list_all (\<lambda>p. files w1 p \<noteq> None) outfiles"
    using render_ok [OF E hashable_label [OF str] f] by blast
  obtain w' where "validate E w1 outfiles = Inr w'"
    using validate_ok [OF E ex] by blast
  then show ?thesis using sm r by (simp add: transform_file_def)
qed

lemma demo_env_obliging: "obliging demo_env"
  by (simp add: obliging_def demo_env_def)

lemma demo_choice: "choice transforms (const_rng 0) = Inr (transforms ! 0, (const_rng 0)\<lparr>pos := 1\<rparr>)"
  by (simp add: choice_def random_random_def const_rng_def transforms_def)

lemma demo_spec: "spec_invariant (transforms ! 0) \<and> list_all offers_value (categorical_of (transforms ! 0))"
  by (simp add: transforms_def spec_invariant_def continuous_entry_def categorical_entry_def
      is_str_def is_number_def the_number_def offers_value_def categorical_of_def)

lemma demo_run:
  "\<exists>g' w'. transform_file demo_env transforms ''data/FSD50K.eval_audio/1.wav'' (const_rng 0, demo_world) = Inr (g', w')"
proof -
  have u: "unit_draws (const_rng 0)" by (simp add: unit_draws_def const_rng_def)
  have f: "files demo_world ''data/FSD50K.eval_audio/1.wav'' \<noteq> None" by (simp add: demo_world_def)
  show ?thesis
    using transform_file_ok [OF u demo_choice _ _ demo_env_obliging f] demo_spec by blast
qed





text \<open>
  Claim C10.  Whenever the sampling, the rendering and the distance loop of a run have
  succeeded, so that the run reaches the call of the rank correlation on line 187, the list of
  distances has \<open>N_TRANSFORMS - 1 = 31\<close> entries and the index sequence \<^verbatim>\<open>range(len(dists))\<close> has
  the same length; the case of fewer than 2 distances does not arise.
\<close>

theorem correlation_input_lengths:
  assumes "sample catalog g = Inr (s, g1)"
    and "render E (s_transform s) f (variable_label (s_variable s)) (s_params s) (s_values s) w
           = Inr (outfiles, w1)"
    and "distances E w1 outfiles = Inr dists"
  shows "length dists = N_TRANSFORMS - 1 \<and> length dists = 31
         \<and> length (py_range (length dists)) = length dists \<and> 2 \<le> length dists"
proof -
  have "length outfiles = N_TRANSFORMS"
    using render_result [OF assms(2)] sample_values(1) [OF assms(1)] by simp
  then have "length dists = N_TRANSFORMS - 1"
    using distances_length [OF assms(3)] by simp
  then show ?thesis by (simp add: N_TRANSFORMS_def py_range_def)
qed

theorem correlation_input_lengths_witness:
  "\<exists>s g1 outfiles w1 dists.
     sample transforms (const_rng 0) = Inr (s, g1)
     \<and> render demo_env (s_transform s) ''data/FSD50K.eval_audio/1.wav''
          (variable_label (s_variable s)) (s_params s) (s_values s) demo_world = Inr (outfiles, w1)
     \<and> distances demo_env w1 outfiles = Inr dists
     \<and> length dists = 31 \<and> length (py_range (length dists)) = length dists \<and> 2 \<le> length dists"
proof -
  obtain g' w' where "transform_file demo_env transforms ''data/FSD50K.eval_audio/1.wav''
      (const_rng 0, demo_world) = Inr (g', w')"
    using demo_run by blast
  then obtain s outfiles w1 dists where
    a: "sample transforms (const_rng 0) = Inr (s, g')"
    and b: "render demo_env (s_transform s) ''data/FSD50K.eval_audio/1.wav''
          (variable_label (s_variable s)) (s_params s) (s_values s) demo_world = Inr (outfiles, w1)"
    and c: "distances demo_env w1 outfiles = Inr dists"
    unfolding transform_file_unfold by blast
  show ?thesis
    using correlation_input_lengths [OF a b c] a b c by blast
qed

text \<open>
  Claim C9.  The validation has no check of its own on the distances: it prints what the rank
  correlation returns.  With a rank correlation that returns NaN for a sequence of fewer than 2
  distances or of equal distances, as the collaborator's contract says, the validation of such
  a sequence returns normally and prints NaN.
\<close>

theorem degenerate_distances_print_nan:
  assumes "nan_on_degenerate (correlate E)"
    and "distances E w outfiles = Inr dists"
    and "length dists < 2 \<or> list_all (\<lambda>d. d = hd dists) dists"
  shows "validate E w outfiles = Inr (w\<lparr>stdout := stdout w @ [None]\<rparr>)"
proof -
  have "length dists = length (py_range (length dists))"
    by (simp add: py_range_def)
  then have "correlate E dists (py_range (length dists)) = Inr None"
    using assms(1,3) unfolding nan_on_degenerate_def by blast
  then show ?thesis using assms(2) by (simp add: validate_def)
qed

theorem degenerate_distances_print_nan_witness:
  "nan_on_degenerate (correlate demo_env)
   \<and> distances demo_env demo_world [''anchor.ogg'', ''other.ogg'', ''other.ogg''] = Inr [160, 160]
   \<and> list_all (\<lambda>d. d = hd [160, 160 :: real]) [160, 160]
   \<and> validate demo_env demo_world [''anchor.ogg'', ''other.ogg'', ''other.ogg'']
       = Inr (demo_world\<lparr>stdout := stdout demo_world @ [None]\<rparr>)"
proof -
  have a: "nan_on_degenerate (correlate demo_env)"
    by (simp add: nan_on_degenerate_def demo_env_def)
  have b: "distances demo_env demo_world [''anchor.ogg'', ''other.ogg'', ''other.ogg''] = Inr [160, 160]"
    by (simp add: distances_def pair_distance_def read_file_def demo_world_def demo_env_def
        truncate_pair_def)
  have c: "length [160, 160 :: real] < 2 \<or> list_all (\<lambda>d. d = hd [160, 160 :: real]) [160, 160]"
    by simp
  show ?thesis
    using degenerate_distances_print_nan [OF a b c] a b by simp
qed


section \<open>The formatted value\<close>

lemma show_nat_digit: "n < 10 \<Longrightarrow> show_nat n = [digit n]"
  by (simp add: show_nat.simps)

lemma show_nat_step: "10 \<le> n \<Longrightarrow> show_nat n = show_nat (n div 10) @ [digit (n mod 10)]"
  by (subst show_nat.simps) simp

lemma digit_chars:
  "digit 0 = CHR ''0''" "digit (Suc 0) = CHR ''1''" "digit 1 = CHR ''1''" "digit 2 = CHR ''2''"
  "digit 3 = CHR ''3''" "digit 4 = CHR ''4''" "digit 5 = CHR ''5''" "digit 6 = CHR ''6''"
  "digit 7 = CHR ''7''" "digit 8 = CHR ''8''" "digit 9 = CHR ''9''"
  by (simp_all add: digit_def char_of_def bit_Suc_0_iff)


lemma of_char_digit: "d < 10 \<Longrightarrow> of_char (digit d) = 48 + d"
  by (simp add: digit_def of_char_of)

lemma digit_value_digit [simp]: "d < 10 \<Longrightarrow> digit_value (digit d) = d"
  by (simp add: digit_value_def of_char_digit)


lemma digit_not_minus: "d < 10 \<Longrightarrow> digit d \<noteq> CHR ''-''"
proof
  assume d: "d < 10" and "digit d = CHR ''-''"
  then have "of_char (digit d) = (of_char (CHR ''-'') :: nat)" by simp
  then show False using d by (simp add: of_char_digit)
qed

lemma length_digits_fixed [simp]: "length (digits_fixed k n) = k"
  by (induction k arbitrary: n) simp_all

lemma digits_fixed_zero: "digits_fixed k 0 = replicate k (CHR ''0'')"
  by (induction k) (simp_all add: digit_chars replicate_append_same)

lemma zero_pad_snoc: "zero_pad (Suc k) (s @ [c]) = zero_pad k s @ [c]"
  by (simp add: zero_pad_def)

lemma zero_pad_show_nat:
  "n < 10 ^ Suc k \<Longrightarrow> zero_pad (Suc k) (show_nat n) = digits_fixed (Suc k) n"
proof (induction k arbitrary: n)
  case 0
  then show ?case by (simp add: show_nat_digit zero_pad_def)
next
  case (Suc k)
  show ?case
  proof (cases "n < 10")
    case True
    then show ?thesis
      by (simp add: show_nat_digit zero_pad_def digits_fixed_zero digit_chars replicate_append_same)
  next
    case False
    then have s: "show_nat n = show_nat (n div 10) @ [digit (n mod 10)]"
      by (simp add: show_nat_step)
    have "n div 10 < 10 ^ Suc k" using Suc.prems by (simp add: less_mult_imp_div_less)
    from Suc.IH [OF this] show ?thesis
      by (simp only: s zero_pad_snoc digits_fixed.simps)
  qed
qed

lemma string_value_snoc: "string_value (s @ [c]) = 10 * string_value s + digit_value c"
  by (simp add: string_value_def)

lemma string_value_show_nat: "string_value (show_nat n) = n"
proof (induction n rule: show_nat.induct)
  case (1 n)
  show ?case
  proof (cases "n < 10")
    case True
    then show ?thesis by (simp add: show_nat_digit string_value_def)
  next
    case False
    then show ?thesis using 1 by (simp add: show_nat_step string_value_snoc)
  qed
qed

lemma digit_value_zero: "digit_value (CHR ''0'') = 0"
  using digit_value_digit [of 0] by (simp add: digit_chars)

lemma string_value_zeros: "string_value (replicate m (CHR ''0'') @ s) = string_value s"
proof -
  have "foldl (\<lambda>a c. 10 * a + digit_value c) 0 (replicate m (CHR ''0'')) = 0"
    by (induction m) (simp_all add: digit_value_zero)
  then show ?thesis by (simp add: string_value_def)
qed

lemma string_value_digits_fixed: "n < 10 ^ k \<Longrightarrow> string_value (digits_fixed k n) = n"
proof (induction k arbitrary: n)
  case 0
  then show ?case by (simp add: string_value_def)
next
  case (Suc k)
  have "n div 10 < 10 ^ k" using Suc.prems by (simp add: less_mult_imp_div_less)
  from Suc.IH [OF this] show ?case by (simp add: string_value_snoc)
qed






lemma rhe_near: "\<bar>of_int (round_half_even x) - x\<bar> \<le> 1 / 2"
  unfolding round_half_even_def Let_def by (auto simp: abs_le_iff)

lemma rhe_mono: "x \<le> y \<Longrightarrow> round_half_even x \<le> round_half_even y"
proof -
  assume xy: "x \<le> y"
  have fl: "\<lfloor>x\<rfloor> \<le> \<lfloor>y\<rfloor>" using xy by (rule floor_mono)
  show ?thesis
  proof (cases "\<lfloor>x\<rfloor> = \<lfloor>y\<rfloor>")
    case True
    then show ?thesis using xy
      unfolding round_half_even_def Let_def by auto
  next
    case False
    then have "\<lfloor>x\<rfloor> + 1 \<le> \<lfloor>y\<rfloor>" using fl by simp
    moreover have "round_half_even x \<le> \<lfloor>x\<rfloor> + 1"
      unfolding round_half_even_def Let_def by auto
    moreover have "\<lfloor>y\<rfloor> \<le> round_half_even y"
      unfolding round_half_even_def Let_def by auto
    ultimately show ?thesis by linarith
  qed
qed

lemma rhe_apart: "1 < y - x \<Longrightarrow> round_half_even x < round_half_even y"
proof -
  assume a: "1 < y - x"
  have "of_int (round_half_even x) \<le> x + 1 / 2" using rhe_near [of x] by linarith
  moreover have "y - 1 / 2 \<le> of_int (round_half_even y)" using rhe_near [of y] by linarith
  ultimately have "(of_int (round_half_even x) :: real) < of_int (round_half_even y)" using a by linarith
  then show ?thesis by simp
qed

lemma rhe_nonneg: "0 \<le> x \<Longrightarrow> 0 \<le> round_half_even x"
  using rhe_mono [of 0 x] by (simp add: round_half_even_def)



lemma zero_pad_digits3:
  assumes "r < 1000"
  shows "zero_pad 3 (show_nat r) = digits_fixed 3 r"
proof -
  have e: "Suc 2 = 3" by simp
  have "r < 10 ^ Suc 2" using assms by simp
  from zero_pad_show_nat [OF this] show ?thesis unfolding e .
qed

lemma format_shape:
  "\<exists>m. format_010_3F v =
         (if v < 0 then ''-'' else []) @ replicate m (CHR ''0'')
           @ show_nat (nat (round_half_even (\<bar>v\<bar> * 1000)) div 1000)
           @ ''.'' @ digits_fixed 3 (nat (round_half_even (\<bar>v\<bar> * 1000)) mod 1000)"
proof -
  let ?n = "nat (round_half_even (\<bar>v\<bar> * 1000))"
  have r: "zero_pad 3 (show_nat (?n mod 1000)) = digits_fixed 3 (?n mod 1000)"
    by (rule zero_pad_digits3) simp
  have f: "format_010_3F v =
      (if v < 0 then ''-'' else []) @ zero_pad (10 - length (if v < 0 then ''-'' else []))
         (show_nat (?n div 1000) @ ''.'' @ digits_fixed 3 (?n mod 1000))"
    unfolding format_010_3F_def Let_def r by (rule refl)
  show ?thesis
    unfolding f zero_pad_def by (rule exI) (rule refl)
qed













lemma show_nat_head: "\<exists>d rest. d < 10 \<and> show_nat n = digit d # rest"
proof (induction n rule: show_nat.induct)
  case (1 n)
  show ?case
  proof (cases "n < 10")
    case True
    then show ?thesis by (auto simp: show_nat_digit)
  next
    case False
    then obtain d rest where "d < 10" "show_nat (n div 10) = digit d # rest"
      using 1 by blast
    then show ?thesis using False by (auto simp: show_nat_step)
  qed
qed

lemma unsigned_head:
  "hd (replicate m (CHR ''0'') @ show_nat q @ rest) \<noteq> CHR ''-''"
proof (cases m)
  case 0
  obtain d r where "d < 10" "show_nat q = digit d # r" using show_nat_head by blast
  then show ?thesis using 0 by (simp add: digit_not_minus)
next
  case (Suc k)
  then show ?thesis by simp
qed

lemma unsigned_value:
  assumes "replicate m1 (CHR ''0'') @ show_nat q1 @ ''.'' @ digits_fixed 3 r1
         = replicate m2 (CHR ''0'') @ show_nat q2 @ ''.'' @ digits_fixed 3 r2"
    and "r1 < 1000" and "r2 < 1000"
  shows "q1 = q2 \<and> r1 = r2"
proof -
  have "(replicate m1 (CHR ''0'') @ show_nat q1) @ (''.'' @ digits_fixed 3 r1)
      = (replicate m2 (CHR ''0'') @ show_nat q2) @ (''.'' @ digits_fixed 3 r2)"
    using assms(1) by simp
  moreover have "length (''.'' @ digits_fixed 3 r1) = length (''.'' @ digits_fixed 3 r2)"
    by simp
  ultimately have "replicate m1 (CHR ''0'') @ show_nat q1 = replicate m2 (CHR ''0'') @ show_nat q2
      \<and> ''.'' @ digits_fixed 3 r1 = ''.'' @ digits_fixed 3 r2"
    using append_eq_append_conv [of "replicate m1 (CHR ''0'') @ show_nat q1"
        "replicate m2 (CHR ''0'') @ show_nat q2" "''.'' @ digits_fixed 3 r1" "''.'' @ digits_fixed 3 r2"]
    by blast
  then have a: "replicate m1 (CHR ''0'') @ show_nat q1 = replicate m2 (CHR ''0'') @ show_nat q2"
    and b: "''.'' @ digits_fixed 3 r1 = ''.'' @ digits_fixed 3 r2"
    by blast+
  from a have "string_value (replicate m1 (CHR ''0'') @ show_nat q1)
             = string_value (replicate m2 (CHR ''0'') @ show_nat q2)" by simp
  then have q: "q1 = q2" by (simp only: string_value_zeros string_value_show_nat)
  from b have "string_value (digits_fixed 3 r1) = string_value (digits_fixed 3 r2)" by simp
  moreover have "r1 < 10 ^ 3" "r2 < 10 ^ 3" using assms(2,3) by simp_all
  ultimately have "r1 = r2" by (simp only: string_value_digits_fixed)
  with q show ?thesis by simp
qed

lemma format_eq_iff:
  "format_010_3F v1 = format_010_3F v2 \<longleftrightarrow>
     (v1 < 0 \<longleftrightarrow> v2 < 0)
     \<and> nat (round_half_even (\<bar>v1\<bar> * 1000)) = nat (round_half_even (\<bar>v2\<bar> * 1000))"
proof
  let ?n1 = "nat (round_half_even (\<bar>v1\<bar> * 1000))"
  let ?n2 = "nat (round_half_even (\<bar>v2\<bar> * 1000))"
  assume eq: "format_010_3F v1 = format_010_3F v2"
  obtain m1 where f1: "format_010_3F v1 = (if v1 < 0 then ''-'' else []) @ replicate m1 (CHR ''0'')
           @ show_nat (?n1 div 1000) @ ''.'' @ digits_fixed 3 (?n1 mod 1000)"
    using format_shape by blast
  obtain m2 where f2: "format_010_3F v2 = (if v2 < 0 then ''-'' else []) @ replicate m2 (CHR ''0'')
           @ show_nat (?n2 div 1000) @ ''.'' @ digits_fixed 3 (?n2 mod 1000)"
    using format_shape by blast
  let ?u1 = "replicate m1 (CHR ''0'') @ show_nat (?n1 div 1000) @ ''.'' @ digits_fixed 3 (?n1 mod 1000)"
  let ?u2 = "replicate m2 (CHR ''0'') @ show_nat (?n2 div 1000) @ ''.'' @ digits_fixed 3 (?n2 mod 1000)"
  have h1: "hd ?u1 \<noteq> CHR ''-''" by (rule unsigned_head)
  have h2: "hd ?u2 \<noteq> CHR ''-''" by (rule unsigned_head)
  have e: "(if v1 < 0 then ''-'' else []) @ ?u1 = (if v2 < 0 then ''-'' else []) @ ?u2"
    using eq f1 f2 by simp
  have sign: "v1 < 0 \<longleftrightarrow> v2 < 0"
  proof (rule ccontr)
    assume "\<not> ?thesis"
    then consider "v1 < 0" "\<not> v2 < 0" | "\<not> v1 < 0" "v2 < 0" by blast
    then show False
    proof cases
      case 1
      then have "CHR ''-'' # ?u1 = ?u2" using e by simp
      then have "hd ?u2 = CHR ''-''" by (metis list.sel(1))
      then show False using h2 by simp
    next
      case 2
      then have "?u1 = CHR ''-'' # ?u2" using e by simp
      then have "hd ?u1 = CHR ''-''" by (metis list.sel(1))
      then show False using h1 by simp
    qed
  qed
  then have "?u1 = ?u2" using e by (cases "v1 < 0") simp_all
  then have "?n1 div 1000 = ?n2 div 1000 \<and> ?n1 mod 1000 = ?n2 mod 1000"
    by (rule unsigned_value) simp_all
  then have "?n1 = ?n2" by (metis div_mult_mod_eq)
  with sign show "(v1 < 0 \<longleftrightarrow> v2 < 0) \<and> ?n1 = ?n2" by simp
next
  assume "(v1 < 0 \<longleftrightarrow> v2 < 0)
     \<and> nat (round_half_even (\<bar>v1\<bar> * 1000)) = nat (round_half_even (\<bar>v2\<bar> * 1000))"
  then show "format_010_3F v1 = format_010_3F v2"
    by (simp add: format_010_3F_def Let_def)
qed


section \<open>The output path\<close>

lemma path_join_transforms:
  "path_join ''data/transforms'' b =
     (if b \<noteq> [] \<and> hd b = CHR ''/'' then b else ''data/transforms/'' @ b)"
  by (simp add: path_join_def)

lemma outfile_eq_iff:
  "outfile r t f lab v1 = outfile r t f lab v2 \<longleftrightarrow> format_010_3F v1 = format_010_3F v2"
proof -
  let ?X = "fstr r t @ ''-'' @ basename f @ ''-'' @ fstr r lab @ ''-''"
  have o: "outfile r t f lab v = path_join ''data/transforms'' (?X @ format_010_3F v @ ''.ogg'')" for v
    by (simp add: outfile_def)
  have ne: "?X @ format_010_3F v @ ''.ogg'' \<noteq> []" for v by simp
  have hd: "hd (?X @ format_010_3F v @ ''.ogg'') = hd ?X" for v by (simp add: hd_append)
  show ?thesis
  proof (cases "hd ?X = CHR ''/''")
    case True
    then show ?thesis
      unfolding o path_join_transforms by (simp only: ne hd simp_thms if_True same_append_eq append_same_eq)
  next
    case False
    then show ?thesis
      unfolding o path_join_transforms by (simp only: ne hd simp_thms if_False same_append_eq append_same_eq)
  qed
qed



lemma outfile_apart:
  assumes "1 / 1000 < \<bar>v1 - v2\<bar>"
  shows "format_010_3F v1 \<noteq> format_010_3F v2"
proof
  assume "format_010_3F v1 = format_010_3F v2"
  then have sign: "v1 < 0 \<longleftrightarrow> v2 < 0"
    and n: "nat (round_half_even (\<bar>v1\<bar> * 1000)) = nat (round_half_even (\<bar>v2\<bar> * 1000))"
    unfolding format_eq_iff by blast+
  have p1: "0 \<le> round_half_even (\<bar>v1\<bar> * 1000)" by (rule rhe_nonneg) simp
  have p2: "0 \<le> round_half_even (\<bar>v2\<bar> * 1000)" by (rule rhe_nonneg) simp
  from n p1 p2 have eq: "round_half_even (\<bar>v1\<bar> * 1000) = round_half_even (\<bar>v2\<bar> * 1000)"
    by simp
  have d: "1 / 1000 < \<bar>\<bar>v1\<bar> - \<bar>v2\<bar>\<bar>" using assms sign by (cases "v1 < 0") linarith+
  then consider "1 < \<bar>v2\<bar> * 1000 - \<bar>v1\<bar> * 1000" | "1 < \<bar>v1\<bar> * 1000 - \<bar>v2\<bar> * 1000"
    by linarith
  then show False
  proof cases
    case 1
    from rhe_apart [OF this] eq show False by simp
  next
    case 2
    from rhe_apart [OF this] eq show False by simp
  qed
qed







text \<open>
  Claim C8, as the code has it.  Two sweep values of one file get the same output path exactly
  when they have the same sign and the same number of thousandths after rounding, that is when
  their formatted strings coincide; values more than \<open>0.001\<close> apart always get distinct paths.
  (Distinct values closer than that may collide.)
\<close>

theorem outfile_distinct:
  "(outfile r t f lab v1 = outfile r t f lab v2 \<longleftrightarrow>
      (v1 < 0 \<longleftrightarrow> v2 < 0)
      \<and> nat (round_half_even (\<bar>v1\<bar> * 1000)) = nat (round_half_even (\<bar>v2\<bar> * 1000)))
   \<and> (1 / 1000 < \<bar>v1 - v2\<bar> \<longrightarrow> outfile r t f lab v1 \<noteq> outfile r t f lab v2)"
  using outfile_apart [of v1 v2]
  by (simp only: outfile_eq_iff format_eq_iff) blast

theorem outfile_distinct_witness:
  "1 / 1000 < \<bar>(1 :: real) - 2\<bar>
   \<and> outfile (\<lambda>v. []) (PStr ''speed'') ''data/FSD50K.eval_audio/1.wav'' (PStr ''factor'') 1
     \<noteq> outfile (\<lambda>v. []) (PStr ''speed'') ''data/FSD50K.eval_audio/1.wav'' (PStr ''factor'') 2"
proof -
  have h: "1 / 1000 < \<bar>(1 :: real) - 2\<bar>" by simp
  show ?thesis
    using outfile_distinct [of "\<lambda>v. []" "PStr ''speed''" "''data/FSD50K.eval_audio/1.wav''"
        "PStr ''factor''" 1 2] h
    by blast
qed

text \<open>Two distinct values of the range \<open>[0.5, 1.5]\<close> of \<^verbatim>\<open>speed\<close>, both floats, with one and the
  same output path: \<open>1\<close> and \<open>4097 / 4096\<close> are both formatted \<^verbatim>\<open>000001.000\<close>.\<close>

theorem outfile_collision_counterexample:
  "(1 :: real) \<noteq> 4097 / 4096
   \<and> outfile (\<lambda>v. []) (PStr ''speed'') ''data/FSD50K.eval_audio/1.wav'' (PStr ''factor'') 1
     = outfile (\<lambda>v. []) (PStr ''speed'') ''data/FSD50K.eval_audio/1.wav'' (PStr ''factor'') (4097 / 4096)"
  by (simp add: outfile_eq_iff format_eq_iff round_half_even_def)

end
